theory Spec2Isabelle
  imports Complex_Main "HOL-Library.Word"
begin

section \<open>Data model of \<open>buffered_line_reader.py\<close>\<close>

text \<open>
  Python \<open>bytes\<close> are lists of 8-bit words; a Python \<open>str\<close> holding decoded file
  content is a list of Unicode code points (\<open>pystr\<close>), since the content may hold
  characters beyond one byte. Paths, file modes and messages are Isabelle strings.
\<close>

type_synonym byte = "8 word"
type_synonym bytes = "byte list"
type_synonym codepoint = nat
type_synonym pystr = "codepoint list"

text \<open>
  What \<open>read\<close> returns: \<open>bytes\<close> from a binary stream, \<open>str\<close> from a text
  stream. \<open>len(chunk)\<close> is \<open>chunk_len\<close>, and \<open>not chunk\<close> holds when it is \<open>0\<close>;
  \<open>chunk_take\<close> and \<open>chunk_drop\<close> are the slices \<open>chunk[:k]\<close> and \<open>chunk[k:]\<close>.
\<close>

datatype chunk = Bytes bytes | Str pystr

fun chunk_len :: "chunk \<Rightarrow> nat" where
  "chunk_len (Bytes b) = length b"
| "chunk_len (Str s) = length s"

fun chunk_take :: "nat \<Rightarrow> chunk \<Rightarrow> chunk" where
  "chunk_take k (Bytes b) = Bytes (take k b)"
| "chunk_take k (Str s) = Str (take k s)"

fun chunk_drop :: "nat \<Rightarrow> chunk \<Rightarrow> chunk" where
  "chunk_drop k (Bytes b) = Bytes (drop k b)"
| "chunk_drop k (Str s) = Str (drop k s)"

text \<open>
  The exceptions the module raises or lets through. \<open>UnicodeDecodeError\<close> carries the
  codec name, the start and end offsets of the offending bytes and the reason;
  \<open>OSError\<close> stands for any failure of the underlying \<open>open\<close> or \<open>read\<close>.
\<close>

datatype exn =
    ValueError string
  | UnicodeDecodeError string nat nat string
  | OSError string
  | AttributeError string
  | ZeroDivisionError string

text \<open>The five class constants \<open>COMPRESSION_*\<close>.\<close>

datatype compression =
    COMPRESSION_NONE
  | COMPRESSION_GZIP
  | COMPRESSION_BZIP2
  | COMPRESSION_XZ
  | COMPRESSION_LZMA

text \<open>The codecs and error handlers modelled for \<open>bytes.decode(encoding, errors=...)\<close>.\<close>

datatype encoding = Utf8 | Latin1 | Ascii

datatype errors = Strict | Replace | Ignore

text \<open>
  The value of an attribute that the code tests with \<open>isinstance(..., str)\<close>: the
  \<open>name\<close> of a stream opened from a file descriptor is an integer, not a string.
\<close>

datatype attr_val = StrVal string | IntVal int

text \<open>
  A file object as the module uses it. The attributes \<open>name\<close> and \<open>mode\<close> are
  optional (they are looked up with \<open>getattr\<close>/\<open>hasattr\<close>); \<open>fo_truthy\<close> is the
  truth value of the object; \<open>fo_has_closed\<close> tells whether it has an attribute
  \<open>closed\<close>, and \<open>fo_closed\<close> whether it has been closed, which is the value of that
  attribute when it exists. \<open>fo_data\<close> is the content not yet read, bytes for a
  binary stream and text for a text stream. \<open>fo_fault\<close> scripts a read failure
  (\<open>Some (k, e)\<close>: \<open>k\<close> more calls of \<open>read\<close> succeed, the next one raises \<open>e\<close>),
  and \<open>fo_close_err\<close> a failure of \<open>close()\<close> (\<open>Some (e, c)\<close>: it raises \<open>e\<close>, and the
  object is closed afterwards when \<open>c\<close> holds, as objects of the \<open>io\<close> module are).
\<close>

record file_obj =
  fo_name :: "attr_val option"
  fo_mode :: "string option"
  fo_truthy :: bool
  fo_has_closed :: bool
  fo_closed :: bool
  fo_data :: chunk
  fo_fault :: "(nat \<times> exn) option"
  fo_close_err :: "(exn \<times> bool) option"

text \<open>The constructor argument \<open>file_or_path: Union[str, IO[bytes]]\<close>.\<close>

datatype source = Path string | Stream file_obj

text \<open>The attributes of a \<open>BufferedLineReader\<close>; private names drop the underscore.\<close>

record reader =
  user_chunk_size :: "int option"
  encoding :: encoding
  errors :: errors
  debug :: bool
  closed :: bool
  line_count :: nat
  bytes_processed :: nat
  start_time :: "real option"
  total_time :: real
  mode :: "string option"
  file_path :: attr_val
  file_obj :: "file_obj option"
  compression_type :: compression

section \<open>Format detection and chunk size\<close>

text \<open>\<open>str.endswith\<close>.\<close>

definition endswith :: "'a list \<Rightarrow> 'a list \<Rightarrow> bool" where
  "endswith s ext = (length ext \<le> length s \<and> drop (length s - length ext) s = ext)"

definition isinstance_str :: "attr_val \<Rightarrow> bool" where
  "isinstance_str v = (case v of StrVal _ \<Rightarrow> True | IntVal _ \<Rightarrow> False)"

definition str_endswith :: "attr_val \<Rightarrow> string \<Rightarrow> bool" where
  "str_endswith v ext = (case v of StrVal s \<Rightarrow> endswith s ext | IntVal _ \<Rightarrow> False)"

text \<open>The dictionary \<open>compression_map\<close>, in insertion order.\<close>

definition compression_map :: "(string \<times> compression) list" where
  "compression_map =
     [(''.gz'', COMPRESSION_GZIP),
      (''.bz2'', COMPRESSION_BZIP2),
      (''.xz'', COMPRESSION_XZ),
      (''.lzma'', COMPRESSION_LZMA)]"

text \<open>The loop of \<open>_detect_compression_type\<close> over the items of the dictionary.\<close>

fun detect_loop :: "attr_val \<Rightarrow> (string \<times> compression) list \<Rightarrow> compression" where
  "detect_loop p [] = COMPRESSION_NONE"
| "detect_loop p ((ext, comp_type) # items) =
     (if isinstance_str p \<and> str_endswith p ext then comp_type else detect_loop p items)"

text \<open>\<open>_detect_compression_type\<close> reads \<open>self.file_path\<close> only.\<close>

definition detect_compression_type :: "attr_val \<Rightarrow> compression" where
  "detect_compression_type p = detect_loop p compression_map"

text \<open>
  \<open>_initialize_file_properties\<close>: the attributes \<open>file_path\<close> and \<open>file_obj\<close> it sets,
  or the \<open>ValueError\<close> it raises for a stream whose \<open>mode\<close> attribute exists and
  lacks \<open>'b'\<close>.
\<close>

definition initialize_file_properties :: "source \<Rightarrow> exn + (attr_val \<times> file_obj option)" where
  "initialize_file_properties file_or_path =
     (case file_or_path of
        Path s \<Rightarrow> Inr (StrVal s, None)
      | Stream f \<Rightarrow>
          (let fp = (case fo_name f of Some n \<Rightarrow> n | None \<Rightarrow> StrVal ''<unknown>'') in
           case fo_mode f of
             Some m \<Rightarrow>
               (if CHR ''b'' \<notin> set m
                then Inl (ValueError ''file_obj must be opened in binary mode ('rb')'')
                else Inr (fp, Some f))
           | None \<Rightarrow> Inr (fp, Some f)))"

text \<open>\<open>__init__\<close>.\<close>

definition init :: "source \<Rightarrow> int option \<Rightarrow> encoding \<Rightarrow> errors \<Rightarrow> bool \<Rightarrow> exn + reader" where
  "init file_or_path chunk_size enc errs dbg =
     (case initialize_file_properties file_or_path of
        Inl e \<Rightarrow> Inl e
      | Inr (fp, fo) \<Rightarrow>
          Inr \<lparr> user_chunk_size = chunk_size, encoding = enc, errors = errs, debug = dbg,
                closed = False, line_count = 0, bytes_processed = 0, start_time = None,
                total_time = 0, mode = None, file_path = fp, file_obj = fo,
                compression_type = detect_compression_type fp \<rparr>)"

text \<open>The dictionary \<open>DEFAULT_CHUNK_SIZES\<close>.\<close>

definition DEFAULT_CHUNK_SIZES :: "(compression \<times> int) list" where
  "DEFAULT_CHUNK_SIZES =
     [(COMPRESSION_NONE, 128 * 1024 * 1024),
      (COMPRESSION_GZIP, 32 * 1024 * 1024),
      (COMPRESSION_BZIP2, 16 * 1024 * 1024),
      (COMPRESSION_XZ, 32 * 1024 * 1024),
      (COMPRESSION_LZMA, 32 * 1024 * 1024)]"

text \<open>Truthiness of \<open>Optional[int]\<close>: \<open>None\<close> and \<open>0\<close> are false.\<close>

definition truthy :: "int option \<Rightarrow> bool" where
  "truthy v = (case v of None \<Rightarrow> False | Some n \<Rightarrow> n \<noteq> 0)"

definition get_chunk_size :: "reader \<Rightarrow> int" where
  "get_chunk_size r =
     (case user_chunk_size r of
        Some n \<Rightarrow>
          (if truthy (user_chunk_size r) then n
           else (case map_of DEFAULT_CHUNK_SIZES (compression_type r) of
                   Some d \<Rightarrow> d | None \<Rightarrow> 16 * 1024 * 1024))
      | None \<Rightarrow>
          (case map_of DEFAULT_CHUNK_SIZES (compression_type r) of
             Some d \<Rightarrow> d | None \<Rightarrow> 16 * 1024 * 1024))"

section \<open>Closing\<close>

text \<open>
  \<open>file_obj.close()\<close>: the exception it raises, if any, and the object afterwards.
\<close>

definition fo_close :: "file_obj \<Rightarrow> exn option \<times> file_obj" where
  "fo_close f =
     (case fo_close_err f of
        None \<Rightarrow> (None, f\<lparr>fo_closed := True\<rparr>)
      | Some (e, c) \<Rightarrow> (Some e, f\<lparr>fo_closed := (fo_closed f \<or> c)\<rparr>))"

text \<open>\<open>getattr(file_obj, 'closed', default)\<close>.\<close>

definition getattr_closed :: "file_obj \<Rightarrow> bool \<Rightarrow> bool" where
  "getattr_closed f dflt = (if fo_has_closed f then fo_closed f else dflt)"

text \<open>
  \<open>close\<close>: when the reader has a file object that is truthy and whose \<open>closed\<close>,
  taken as \<open>True\<close> where the attribute is missing, is false, its \<open>close()\<close> is
  called and whatever that raises is swallowed; then \<open>self.closed = True\<close>. The
  first component is the exception that leaves \<open>close\<close>: there is none on any path.
\<close>

definition close :: "reader \<Rightarrow> exn option \<times> reader" where
  "close r =
     (case file_obj r of
        None \<Rightarrow> (None, r\<lparr>closed := True\<rparr>)
      | Some f \<Rightarrow>
          (if fo_truthy f \<and> \<not> getattr_closed f True
           then (case fo_close f of
                   (Some e, f') \<Rightarrow> (None, r\<lparr>file_obj := Some f', closed := True\<rparr>)
                 | (None, f') \<Rightarrow> (None, r\<lparr>file_obj := Some f', closed := True\<rparr>))
           else (None, r\<lparr>closed := True\<rparr>)))"


section \<open>Statistics\<close>

text \<open>
  Python's \<open>/\<close> raises on a zero divisor. Floats are idealised as reals; \<open>int(x)\<close>
  truncates towards zero and \<open>round(x, 2)\<close> rounds half to even at two decimals.
\<close>

definition truediv :: "real \<Rightarrow> real \<Rightarrow> exn + real" where
  "truediv a b = (if b = 0 then Inl (ZeroDivisionError ''division by zero'') else Inr (a / b))"

definition py_int :: "real \<Rightarrow> int" where
  "py_int x = (if 0 \<le> x then \<lfloor>x\<rfloor> else \<lceil>x\<rceil>)"

definition round_half_even :: "real \<Rightarrow> int" where
  "round_half_even y =
     (let f = \<lfloor>y\<rfloor>; d = y - of_int f in
      if d < 1 / 2 then f else if 1 / 2 < d then f + 1 else if even f then f else f + 1)"

definition round2 :: "real \<Rightarrow> real" where
  "round2 x = of_int (round_half_even (x * 100)) / 100"

text \<open>\<open>os.path.basename\<close> on a POSIX path: what follows the last slash.\<close>

definition basename :: "string \<Rightarrow> string" where
  "basename p = rev (takeWhile (\<lambda>c. c \<noteq> CHR ''/'') (rev p))"

text \<open>The dictionary \<open>get_stats\<close> returns, one field per key.\<close>

record stats =
  st_file :: string
  st_mode :: "string option"
  st_lines :: nat
  st_bytes :: nat
  st_time :: real
  st_lines_s :: int
  st_MB_s :: real

definition get_stats :: "reader \<Rightarrow> exn + stats" where
  "get_stats r =
     (case truediv (real (bytes_processed r)) (1024 * 1024) of
        Inl e \<Rightarrow> Inl e
      | Inr mb \<Rightarrow>
     (case (if total_time r > 0
            then (case truediv (real (line_count r)) (total_time r) of
                    Inl e \<Rightarrow> Inl e | Inr q \<Rightarrow> Inr (py_int q))
            else Inr 0) of
        Inl e \<Rightarrow> Inl e
      | Inr lines_per_sec \<Rightarrow>
     (case (if total_time r > 0 then truediv mb (total_time r) else Inr 0) of
        Inl e \<Rightarrow> Inl e
      | Inr mb_per_sec \<Rightarrow>
          Inr \<lparr> st_file = (case file_path r of StrVal s \<Rightarrow> basename s | IntVal _ \<Rightarrow> ''<stream>''),
                st_mode = mode r,
                st_lines = line_count r,
                st_bytes = bytes_processed r,
                st_time = round2 (total_time r),
                st_lines_s = lines_per_sec,
                st_MB_s = round2 mb_per_sec \<rparr>)))"

section \<open>Decoding\<close>

text \<open>
  \<open>bytes.decode\<close> belongs to the Python runtime. A codec is modelled by what it does
  with the first byte of the remaining input: a code point and the number of bytes
  it consumed, or the length of the offending range and the reason. For UTF-8 the
  cases follow the runtime's decoder: a truncated sequence at the end of the input
  is one error that covers all the bytes left, a bad continuation byte ends the
  error before it.
\<close>

datatype step = Good codepoint nat | Bad nat string

definition is_cont :: "byte \<Rightarrow> bool" where
  "is_cont ch = (0x80 \<le> ch \<and> ch < 0xC0)"

definition utf8_step :: "byte \<Rightarrow> bytes \<Rightarrow> step" where
  "utf8_step ch rest =
     (if ch < 0x80 then Good (unat ch) 1
      else if ch < 0xC2 then Bad 1 ''invalid start byte''
      else if ch < 0xE0 then
        (case rest of
           [] \<Rightarrow> Bad 1 ''unexpected end of data''
         | ch2 # _ \<Rightarrow>
             if \<not> is_cont ch2 then Bad 1 ''invalid continuation byte''
             else Good ((unat ch - 0xC0) * 64 + (unat ch2 - 0x80)) 2)
      else if ch < 0xF0 then
        (case rest of
           [] \<Rightarrow> Bad 1 ''unexpected end of data''
         | ch2 # r2 \<Rightarrow>
             if \<not> is_cont ch2 \<or> (if ch2 < 0xA0 then ch = 0xE0 else ch = 0xED)
             then Bad 1 ''invalid continuation byte''
             else (case r2 of
                     [] \<Rightarrow> Bad 2 ''unexpected end of data''
                   | ch3 # _ \<Rightarrow>
                       if \<not> is_cont ch3 then Bad 2 ''invalid continuation byte''
                       else Good ((unat ch - 0xE0) * 4096 + (unat ch2 - 0x80) * 64
                                  + (unat ch3 - 0x80)) 3))
      else if ch < 0xF5 then
        (case rest of
           [] \<Rightarrow> Bad 1 ''unexpected end of data''
         | ch2 # r2 \<Rightarrow>
             if \<not> is_cont ch2 \<or> (if ch2 < 0x90 then ch = 0xF0 else ch = 0xF4)
             then Bad 1 ''invalid continuation byte''
             else (case r2 of
                     [] \<Rightarrow> Bad 2 ''unexpected end of data''
                   | ch3 # r3 \<Rightarrow>
                       if \<not> is_cont ch3 then Bad 2 ''invalid continuation byte''
                       else (case r3 of
                               [] \<Rightarrow> Bad 3 ''unexpected end of data''
                             | ch4 # _ \<Rightarrow>
                                 if \<not> is_cont ch4 then Bad 3 ''invalid continuation byte''
                                 else Good ((unat ch - 0xF0) * 262144
                                            + (unat ch2 - 0x80) * 4096
                                            + (unat ch3 - 0x80) * 64
                                            + (unat ch4 - 0x80)) 4)))
      else Bad 1 ''invalid start byte'')"

definition ascii_step :: "byte \<Rightarrow> bytes \<Rightarrow> step" where
  "ascii_step ch rest =
     (if ch < 0x80 then Good (unat ch) 1 else Bad 1 ''ordinal not in range(128)'')"

definition latin1_step :: "byte \<Rightarrow> bytes \<Rightarrow> step" where
  "latin1_step ch rest = Good (unat ch) 1"

text \<open>
  The decoding loop with its error handler: \<open>strict\<close> raises, \<open>replace\<close> puts
  U+FFFD for each offending range, \<open>ignore\<close> drops it.
\<close>

fun decode_from :: "(byte \<Rightarrow> bytes \<Rightarrow> step) \<Rightarrow> string \<Rightarrow> errors \<Rightarrow> nat \<Rightarrow> bytes \<Rightarrow> exn + pystr" where
  "decode_from stp codec pol pos [] = Inr []"
| "decode_from stp codec pol pos (ch # rest) =
     (case stp ch rest of
        Good cp n \<Rightarrow>
          (case decode_from stp codec pol (pos + n) (drop (n - 1) rest) of
             Inl e \<Rightarrow> Inl e
           | Inr t \<Rightarrow> Inr (cp # t))
      | Bad n reason \<Rightarrow>
          (case pol of
             Strict \<Rightarrow> Inl (UnicodeDecodeError codec pos (pos + n) reason)
           | Replace \<Rightarrow>
               (case decode_from stp codec pol (pos + n) (drop (n - 1) rest) of
                  Inl e \<Rightarrow> Inl e
                | Inr t \<Rightarrow> Inr (0xFFFD # t))
           | Ignore \<Rightarrow> decode_from stp codec pol (pos + n) (drop (n - 1) rest)))"

definition bytes_decode :: "encoding \<Rightarrow> errors \<Rightarrow> bytes \<Rightarrow> exn + pystr" where
  "bytes_decode enc pol b =
     (case enc of
        Utf8 \<Rightarrow> decode_from utf8_step ''utf-8'' pol 0 b
      | Latin1 \<Rightarrow> decode_from latin1_step ''latin-1'' pol 0 b
      | Ascii \<Rightarrow> decode_from ascii_step ''ascii'' pol 0 b)"

text \<open>
  \<open>chunk.decode(encoding, errors=errors)\<close>: a \<open>str\<close> has no method \<open>decode\<close>.
\<close>

definition chunk_decode :: "encoding \<Rightarrow> errors \<Rightarrow> chunk \<Rightarrow> exn + pystr" where
  "chunk_decode enc pol c =
     (case c of
        Bytes b \<Rightarrow> bytes_decode enc pol b
      | Str s \<Rightarrow>
          Inl (AttributeError
                 (CHR 0x27 # ''str'' @ CHR 0x27 # '' object has no attribute ''
                  @ CHR 0x27 # ''decode'' @ [CHR 0x27])))"

section \<open>Splitting into lines\<close>

text \<open>The line terminator \<open>'\n'\<close>.\<close>

definition NL :: codepoint where
  "NL = 10"

text \<open>\<open>str.split(sep)\<close> for a one-character separator: one more part than separators.\<close>

fun str_split :: "'a \<Rightarrow> 'a list \<Rightarrow> 'a list list" where
  "str_split sep [] = [[]]"
| "str_split sep (c # cs) =
     (if c = sep then [] # str_split sep cs
      else (case str_split sep cs of
              [] \<Rightarrow> [[c]]
            | p # ps \<Rightarrow> (c # p) # ps))"

definition track_line :: "reader \<Rightarrow> pystr \<Rightarrow> reader" where
  "track_line r line = r\<lparr>line_count := line_count r + 1\<rparr>"

text \<open>
  The \<open>for\<close> loop of \<open>_read_lines_from_chunks\<close> over the chunks the iterator
  delivered, with the decoder \<open>chunk.decode(self.encoding, errors=self.errors)\<close>
  passed in. It returns the lines yielded, the exception that ended it (if any),
  the pending \<open>text_buffer\<close> and the reader with its counters.
\<close>

fun lines_loop :: "(chunk \<Rightarrow> exn + pystr) \<Rightarrow> pystr \<Rightarrow> reader \<Rightarrow> chunk list
    \<Rightarrow> pystr list \<times> exn option \<times> pystr \<times> reader" where
  "lines_loop dec text_buffer r [] = ([], None, text_buffer, r)"
| "lines_loop dec text_buffer r (chunk # rest) =
     (if chunk_len chunk = 0 then lines_loop dec text_buffer r rest
      else
        (let r1 = r\<lparr>bytes_processed := bytes_processed r + chunk_len chunk\<rparr> in
         case dec chunk of
           Inl e \<Rightarrow> ([], Some e, text_buffer, r1)
         | Inr t \<Rightarrow>
             (let text_buffer' = text_buffer @ t in
              if NL \<in> set text_buffer'
              then
                (let parts = str_split NL text_buffer' in
                 case lines_loop dec (last parts) (foldl track_line r1 (butlast parts)) rest of
                   (out, err, b, r') \<Rightarrow> (butlast parts @ out, err, b, r'))
              else lines_loop dec text_buffer' r1 rest)))"

text \<open>
  \<open>_read_lines_from_chunks\<close>, driven to the end. The chunk iterator is given by the
  chunks it yields and the exception, if any, that it raises after them.
\<close>

definition read_lines_from_chunks :: "reader \<Rightarrow> chunk list \<times> exn option
    \<Rightarrow> pystr list \<times> exn option \<times> reader" where
  "read_lines_from_chunks r chunk_iterator =
     (case chunk_iterator of (chunks, it_err) \<Rightarrow>
        (case lines_loop (chunk_decode (encoding r) (errors r)) [] r chunks of
           (out, Some e, text_buffer, r1) \<Rightarrow> (out, Some e, r1)
         | (out, None, text_buffer, r1) \<Rightarrow>
             (case it_err of
                Some e \<Rightarrow> (out, Some e, r1)
              | None \<Rightarrow>
                  if text_buffer \<noteq> [] then (out @ [text_buffer], None, track_line r1 text_buffer)
                  else (out, None, r1))))"

section \<open>Chunk sources\<close>

text \<open>
  \<open>read(n)\<close> on a file object: a closed object raises, a scripted failure raises
  when its turn comes, otherwise up to \<open>n\<close> bytes or characters are taken (all
  that is left for a negative \<open>n\<close>); an empty result is the end of the stream.
\<close>

definition fo_take :: "file_obj \<Rightarrow> int \<Rightarrow> (exn + chunk) \<times> file_obj" where
  "fo_take f n =
     (let k = (if n < 0 then chunk_len (fo_data f) else nat n) in
      (Inr (chunk_take k (fo_data f)), f\<lparr>fo_data := chunk_drop k (fo_data f)\<rparr>))"

definition fo_read :: "file_obj \<Rightarrow> int \<Rightarrow> (exn + chunk) \<times> file_obj" where
  "fo_read f n =
     (if fo_closed f then (Inl (ValueError ''read of closed file''), f)
      else (case fo_fault f of
              None \<Rightarrow> fo_take f n
            | Some (0, e) \<Rightarrow> (Inl e, f)
            | Some (Suc k, e) \<Rightarrow> fo_take (f\<lparr>fo_fault := Some (k, e)\<rparr>) n))"

text \<open>
  What travels through \<open>chunk_queue\<close>: a chunk, the sentinel \<open>None\<close>, or an
  exception object.
\<close>

datatype qitem = QChunk chunk | QNone | QExc exn

text \<open>
  The producer \<open>chunk_reader\<close> of \<open>_buffered_chunk_iterator\<close>. The queue is first-in
  first-out with one producer and one consumer, so what the consumer receives is
  the sequence of values the producer puts, in order; its capacity delays the
  producer and changes no value. The producer is therefore modelled by the list
  of values it puts, together with the file object it leaves behind.
\<close>

function chunk_reader :: "file_obj \<Rightarrow> int \<Rightarrow> qitem list \<times> file_obj" where
  "chunk_reader f chunk_size =
     (case fo_read f chunk_size of
        (Inl e, f') \<Rightarrow> ([QExc e], f')
      | (Inr chunk, f') \<Rightarrow>
          (if chunk_len chunk = 0 then ([QNone], f')
           else (case chunk_reader f' chunk_size of (q, f'') \<Rightarrow> (QChunk chunk # q, f''))))"
  by pat_completeness auto
termination
proof (relation "measure (\<lambda>(f, n). chunk_len (fo_data f))")
  show "wf (measure (\<lambda>(f, n). chunk_len (fo_data f)))"
    by simp
next
  fix f :: file_obj and chunk_size x f' chunk
  assume "(x, f') = fo_read f chunk_size" and "x = Inr chunk" and "chunk_len chunk \<noteq> 0"
  then show "((f', chunk_size), (f, chunk_size)) \<in> measure (\<lambda>(f, n). chunk_len (fo_data f))"
    by (cases "fo_data f")
       (auto simp: fo_read_def fo_take_def Let_def
             split: if_splits option.splits nat.splits prod.splits)
qed

text \<open>
  The consumer loop of \<open>_buffered_chunk_iterator\<close>: the chunks it yields and the
  exception it raises, if any. On a queue that runs empty without sentinel or
  exception \<open>chunk_queue.get()\<close> never returns: the result is \<open>None\<close>.
\<close>

fun queue_consumer :: "qitem list \<Rightarrow> (chunk list \<times> exn option) option" where
  "queue_consumer [] = None"
| "queue_consumer (QExc e # q) = Some ([], Some e)"
| "queue_consumer (QNone # q) = Some ([], None)"
| "queue_consumer (QChunk chunk # q) =
     (case queue_consumer q of
        None \<Rightarrow> None
      | Some (chunks, err) \<Rightarrow> Some (chunk # chunks, err))"

text \<open>
  What the module gets from outside: \<open>open(path, 'rb')\<close> and the three
  decompressing openers, each giving a file object (over the decompressed bytes
  for the latter) or raising.
\<close>

record world =
  open_rb :: "string \<Rightarrow> exn + file_obj"
  gzip_open :: "string \<Rightarrow> exn + file_obj"
  bz2_open :: "string \<Rightarrow> exn + file_obj"
  lzma_open :: "string \<Rightarrow> exn + file_obj"

definition ensure_file_open :: "world \<Rightarrow> reader \<Rightarrow> exn + reader" where
  "ensure_file_open w r =
     (case file_obj r of
        Some f \<Rightarrow> Inr r
      | None \<Rightarrow>
          (case file_path r of
             IntVal _ \<Rightarrow>
               Inl (ValueError
                 ''file_or_path must be a path string when no file object is provided.'')
           | StrVal p \<Rightarrow>
               (case open_rb w p of
                  Inl e \<Rightarrow> Inl e
                | Inr f \<Rightarrow> Inr (r\<lparr>file_obj := Some f\<rparr>))))"

text \<open>
  \<open>_buffered_chunk_iterator\<close>, driven to the end: the chunks yielded, the exception
  raised (if any) and the reader, whose file object the producer has read. With no
  file object at all the producer's \<open>self.file_obj.read\<close> raises, and that
  exception goes through the queue like any other.
\<close>

definition buffered_chunk_iterator :: "world \<Rightarrow> reader \<Rightarrow> int
    \<Rightarrow> ((chunk list \<times> exn option) \<times> reader) option" where
  "buffered_chunk_iterator w r chunk_size =
     (case ensure_file_open w r of
        Inl e \<Rightarrow> Some (([], Some e), r)
      | Inr r1 \<Rightarrow>
          (case file_obj r1 of
             None \<Rightarrow>
               (case queue_consumer
                       [QExc (AttributeError ''NoneType object has no attribute read'')] of
                  None \<Rightarrow> None
                | Some res \<Rightarrow> Some (res, r1))
           | Some f \<Rightarrow>
               (case chunk_reader f chunk_size of
                  (q, f') \<Rightarrow>
                    (case queue_consumer q of
                       None \<Rightarrow> None
                     | Some res \<Rightarrow> Some (res, r1\<lparr>file_obj := Some f'\<rparr>)))))"

text \<open>The read loop of \<open>_compressed_chunk_iterator\<close>; a failing read propagates.\<close>

function compressed_loop :: "file_obj \<Rightarrow> int \<Rightarrow> chunk list \<times> exn option" where
  "compressed_loop f chunk_size =
     (case fo_read f chunk_size of
        (Inl e, f') \<Rightarrow> ([], Some e)
      | (Inr chunk, f') \<Rightarrow>
          (if chunk_len chunk = 0 then ([], None)
           else (case compressed_loop f' chunk_size of
                   (chunks, err) \<Rightarrow> (chunk # chunks, err))))"
  by pat_completeness auto
termination
proof (relation "measure (\<lambda>(f, n). chunk_len (fo_data f))")
  show "wf (measure (\<lambda>(f, n). chunk_len (fo_data f)))"
    by simp
next
  fix f :: file_obj and chunk_size x f' chunk
  assume "(x, f') = fo_read f chunk_size" and "x = Inr chunk" and "chunk_len chunk \<noteq> 0"
  then show "((f', chunk_size), (f, chunk_size)) \<in> measure (\<lambda>(f, n). chunk_len (fo_data f))"
    by (cases "fo_data f")
       (auto simp: fo_read_def fo_take_def Let_def
             split: if_splits option.splits nat.splits prod.splits)
qed

text \<open>The values of the \<open>COMPRESSION_*\<close> constants, for the error message.\<close>

definition compression_str :: "compression \<Rightarrow> string" where
  "compression_str c =
     (case c of
        COMPRESSION_NONE \<Rightarrow> ''none''
      | COMPRESSION_GZIP \<Rightarrow> ''gz''
      | COMPRESSION_BZIP2 \<Rightarrow> ''bz2''
      | COMPRESSION_XZ \<Rightarrow> ''xz''
      | COMPRESSION_LZMA \<Rightarrow> ''lzma'')"

text \<open>The dictionary of openers and its \<open>.get\<close>.\<close>

definition opener :: "world \<Rightarrow> compression \<Rightarrow> (string \<Rightarrow> exn + file_obj) option" where
  "opener w c =
     map_of
       [(COMPRESSION_GZIP, gzip_open w),
        (COMPRESSION_BZIP2, bz2_open w),
        (COMPRESSION_XZ, lzma_open w),
        (COMPRESSION_LZMA, lzma_open w)] c"

definition compressed_chunk_iterator :: "world \<Rightarrow> reader \<Rightarrow> int \<Rightarrow> chunk list \<times> exn option" where
  "compressed_chunk_iterator w r chunk_size =
     (case opener w (compression_type r) of
        None \<Rightarrow>
          ([], Some (ValueError (''Unsupported compression type: ''
                                  @ compression_str (compression_type r))))
      | Some opn \<Rightarrow>
          (case file_path r of
             IntVal _ \<Rightarrow> ([], Some (ValueError ''Compressed reading requires a file path string.''))
           | StrVal p \<Rightarrow>
               (case opn p of
                  Inl e \<Rightarrow> ([], Some e)
                | Inr f \<Rightarrow> compressed_loop f chunk_size)))"

section \<open>Iteration\<close>

text \<open>
  \<open>__iter__\<close>, consumed to the end, with the two readings of the clock. The
  profiling of the debug mode only prints and is left out, and so is the call of
  \<open>_get_file_size\<close>, which swallows every exception and whose result is dropped. The result is the list
  of lines yielded, the exception that ended the iteration (if any) and the
  reader afterwards; \<open>None\<close> stands for an iteration that never returns.
\<close>

definition iter :: "world \<Rightarrow> real \<Rightarrow> real \<Rightarrow> reader
    \<Rightarrow> (pystr list \<times> exn option \<times> reader) option" where
  "iter w t0 t1 r =
     (let r1 = r\<lparr>start_time := Some t0\<rparr>;
          chunk_size = get_chunk_size r1;
          compressed = (compression_type r1 \<noteq> COMPRESSION_NONE);
          r2 = r1\<lparr>mode := Some (if compressed then ''compressed'' else ''buffered'')\<rparr>
      in
      case (if compressed then Some (compressed_chunk_iterator w r2 chunk_size, r2)
            else buffered_chunk_iterator w r2 chunk_size) of
        None \<Rightarrow> None
      | Some (chunk_iterator, r3) \<Rightarrow>
          (case read_lines_from_chunks r3 chunk_iterator of
             (out, err, r4) \<Rightarrow>
               (case close (r4\<lparr>total_time := t1 - t0\<rparr>) of
                  (Some e, r5) \<Rightarrow> Some (out, Some e, r5)
                | (None, r5) \<Rightarrow> Some (out, err, r5))))"

section \<open>Notions used in the statements\<close>

text \<open>
  The definitions of this section are not part of the module: they name what the
  statements below compare the module's results with.
\<close>

text \<open>
  Putting the terminators back: \<open>'\n'\<close> after every line, after the last one
  only when \<open>fin\<close> holds.
\<close>

fun rejoin :: "bool \<Rightarrow> pystr list \<Rightarrow> pystr" where
  "rejoin fin [] = []"
| "rejoin fin [l] = (if fin then l @ [NL] else l)"
| "rejoin fin (l # m # ls) = l @ NL # rejoin fin (m # ls)"

text \<open>
  The lines of a whole text: its parts between terminators, without the last part
  when that is empty.
\<close>

definition lines_of :: "pystr \<Rightarrow> pystr list" where
  "lines_of t =
     (let parts = str_split NL t in
      butlast parts @ (if last parts \<noteq> [] then [last parts] else []))"

text \<open>
  The text the loop has assembled after a sequence of chunks, each non-empty chunk
  decoded on its own, or the first error. It serves the proofs about the loop. It
  is not the decoding of the content as a whole: the two differ as soon as a
  character is cut by a chunk boundary.
\<close>

fun decode_all :: "(chunk \<Rightarrow> exn + pystr) \<Rightarrow> chunk list \<Rightarrow> exn + pystr" where
  "decode_all dec [] = Inr []"
| "decode_all dec (chunk # rest) =
     (if chunk_len chunk = 0 then decode_all dec rest
      else (case dec chunk of
              Inl e \<Rightarrow> Inl e
            | Inr t \<Rightarrow> (case decode_all dec rest of Inl e \<Rightarrow> Inl e | Inr u \<Rightarrow> Inr (t @ u))))"

text \<open>Consecutive pieces of \<open>k\<close> elements, the last one possibly shorter.\<close>

function chunks_of :: "nat \<Rightarrow> 'a list \<Rightarrow> 'a list list" where
  "chunks_of k xs = (if k = 0 \<or> xs = [] then [] else take k xs # chunks_of k (drop k xs))"
  by pat_completeness auto
termination
  by (relation "measure (\<lambda>(k, xs). length xs)") auto

text \<open>
  The pieces that repeated \<open>read(n)\<close> cuts a content into: one piece with
  everything for a negative \<open>n\<close>, none at all for \<open>n = 0\<close>.
\<close>

definition list_chunks :: "int \<Rightarrow> 'a list \<Rightarrow> 'a list list" where
  "list_chunks n xs =
     (if n < 0 then (if xs = [] then [] else [xs]) else chunks_of (nat n) xs)"

definition file_chunks :: "int \<Rightarrow> chunk \<Rightarrow> chunk list" where
  "file_chunks n c =
     (case c of
        Bytes b \<Rightarrow> map Bytes (list_chunks n b)
      | Str s \<Rightarrow> map Str (list_chunks n s))"

text \<open>
  The file object an iteration reads: the one the decompressing opener gives for a
  compressed format, else the stream the reader was built on, else the file
  opened at its path.
\<close>

definition source_of :: "world \<Rightarrow> reader \<Rightarrow> exn + file_obj" where
  "source_of w r =
     (if compression_type r \<noteq> COMPRESSION_NONE
      then (case opener w (compression_type r) of
              None \<Rightarrow> Inl (ValueError ''Unsupported compression type'')
            | Some opn \<Rightarrow>
                (case file_path r of
                   IntVal _ \<Rightarrow> Inl (ValueError ''Compressed reading requires a file path string.'')
                 | StrVal p \<Rightarrow> opn p))
      else (case file_obj r of
              Some f \<Rightarrow> Inr f
            | None \<Rightarrow>
                (case file_path r of
                   IntVal _ \<Rightarrow> Inl (ValueError ''file_or_path must be a path string'')
                 | StrVal p \<Rightarrow> open_rb w p)))"

text \<open>
  What the producer is expected to put on the queue: the chunks read before the
  failing call and then the exception, or all chunks and then the sentinel.
\<close>

definition expected_queue :: "int \<Rightarrow> file_obj \<Rightarrow> qitem list" where
  "expected_queue n f =
     (let cs = file_chunks n (fo_data f) in
      if fo_closed f then [QExc (ValueError ''read of closed file'')]
      else (case fo_fault f of
              None \<Rightarrow> map QChunk cs @ [QNone]
            | Some (k, e) \<Rightarrow>
                if k \<le> length cs then map QChunk (take k cs) @ [QExc e]
                else map QChunk cs @ [QNone]))"

text \<open>
  Inputs for the examples: an open binary stream over given bytes, without name
  and without failures, as \<open>io.BytesIO\<close> gives with a mode added; an open text
  stream over a given text, without name and without mode, as \<open>io.StringIO\<close>
  gives; and a world in which one path opens to a given file object, whichever
  opener is used, and every other path does not exist.
\<close>

definition binary_stream :: "bytes \<Rightarrow> file_obj" where
  "binary_stream b =
     \<lparr> fo_name = None, fo_mode = Some ''rb'', fo_truthy = True, fo_has_closed = True,
       fo_closed = False, fo_data = Bytes b, fo_fault = None, fo_close_err = None \<rparr>"


definition one_file :: "string \<Rightarrow> file_obj \<Rightarrow> string \<Rightarrow> exn + file_obj" where
  "one_file path f p = (if p = path then Inr f else Inl (OSError ''No such file or directory''))"

definition world_with :: "string \<Rightarrow> file_obj \<Rightarrow> world" where
  "world_with path f =
     \<lparr> open_rb = one_file path f, gzip_open = one_file path f,
       bz2_open = one_file path f, lzma_open = one_file path f \<rparr>"

declare chunks_of.simps [simp del] chunk_reader.simps [simp del] compressed_loop.simps [simp del]

section \<open>Properties of splitting, chunking and the loops\<close>

lemma str_split_not_Nil [simp]: "str_split s xs \<noteq> []"
  by (induction xs) (auto split: list.splits)

lemma str_split_Cons:
  "str_split s (c # cs) =
     (if c = s then [] # str_split s cs
      else (c # hd (str_split s cs)) # tl (str_split s cs))"
  by (cases "str_split s cs") auto

lemma str_split_no_sep: "s \<notin> set xs \<Longrightarrow> str_split s xs = [xs]"
  by (induction xs) auto

lemma str_split_parts_no_sep: "p \<in> set (str_split s xs) \<Longrightarrow> s \<notin> set p"
  by (induction xs arbitrary: p) (auto split: list.splits if_splits)

lemma last_str_split_no_sep: "s \<notin> set (last (str_split s xs))"
  using str_split_parts_no_sep [of "last (str_split s xs)" s xs] by simp

lemma str_split_append:
  "str_split s (xs @ ys) = butlast (str_split s xs) @ str_split s (last (str_split s xs) @ ys)"
proof (induction xs)
  case Nil
  show ?case by simp
next
  case (Cons c xs)
  show ?case
  proof (cases "c = s")
    case True
    with Cons show ?thesis by simp
  next
    case False
    obtain q qs where q: "str_split s xs = q # qs"
      by (cases "str_split s xs") auto
    show ?thesis
    proof (cases qs)
      case Nil
      with q False Cons show ?thesis by (simp split: list.splits)
    next
      case (Cons q' qs')
      with q False Cons.IH show ?thesis by (simp split: list.splits)
    qed
  qed
qed

lemma rejoin_str_split: "rejoin False (str_split NL xs) = xs"
proof (induction xs)
  case Nil
  show ?case by simp
next
  case (Cons c xs)
  obtain q qs where q: "str_split NL xs = q # qs"
    by (cases "str_split NL xs") auto
  with Cons show ?case by (cases qs) auto
qed

lemma rejoin_True: "ls \<noteq> [] \<Longrightarrow> rejoin True ls = rejoin False ls @ [NL]"
  by (induction ls rule: induct_list012) simp_all

lemma length_str_split: "length (str_split s xs) = Suc (count_list xs s)"
  by (induction xs) (auto split: list.splits)

lemma str_split_snoc_sep: "str_split s (xs @ [s]) = str_split s xs @ [[]]"
proof -
  have a: "str_split s (q @ [s]) = [q, []]" if "s \<notin> set q" for q
    using that by (induction q) auto
  have "str_split s (xs @ [s]) = butlast (str_split s xs) @ [last (str_split s xs), []]"
    by (simp add: str_split_append [of s xs "[s]"] a last_str_split_no_sep)
  then show ?thesis
    by (metis append_Cons append_Nil append_assoc append_butlast_last_id str_split_not_Nil)
qed

lemma last_str_split_snoc: "c \<noteq> s \<Longrightarrow> last (str_split s (xs @ [c])) = last (str_split s xs) @ [c]"
proof -
  assume c: "c \<noteq> s"
  have a: "str_split s (q @ [c]) = [q @ [c]]" if "s \<notin> set q" for q
    using that c by (induction q) auto
  show ?thesis
    by (simp add: str_split_append [of s xs "[c]"] a last_str_split_no_sep)
qed

lemma foldl_track_line:
  "foldl track_line r ls = r\<lparr>line_count := line_count r + length ls\<rparr>"
  by (induction ls arbitrary: r) (simp_all add: track_line_def)

lemma lines_loop_decoded:
  "decode_all dec cs = Inr T \<Longrightarrow> NL \<notin> set buf \<Longrightarrow>
   lines_loop dec buf r cs =
     (butlast (str_split NL (buf @ T)), None, last (str_split NL (buf @ T)),
      r\<lparr>bytes_processed := bytes_processed r + sum_list (map chunk_len cs),
        line_count := line_count r + length (butlast (str_split NL (buf @ T)))\<rparr>)"
proof (induction cs arbitrary: buf r T)
  case Nil
  then show ?case by (simp add: str_split_no_sep)
next
  case (Cons chunk rest)
  show ?case
  proof (cases "chunk_len chunk = 0")
    case True
    with Cons show ?thesis by simp
  next
    case False
    from Cons.prems(1) False obtain t u where
      t: "dec chunk = Inr t" and u: "decode_all dec rest = Inr u" and T: "T = t @ u"
      by (auto split: sum.splits)
    let ?r1 = "r\<lparr>bytes_processed := bytes_processed r + chunk_len chunk\<rparr>"
    let ?tb = "buf @ t"
    show ?thesis
    proof (cases "NL \<in> set ?tb")
      case True
      let ?parts = "str_split NL ?tb"
      have nl: "NL \<notin> set (last ?parts)" by (rule last_str_split_no_sep)
      have sp: "str_split NL (buf @ T) = butlast ?parts @ str_split NL (last ?parts @ u)"
        using str_split_append [of NL ?tb u] by (simp add: T)
      have IH: "lines_loop dec (last ?parts) (foldl track_line ?r1 (butlast ?parts)) rest =
         (butlast (str_split NL (last ?parts @ u)), None, last (str_split NL (last ?parts @ u)),
          (foldl track_line ?r1 (butlast ?parts))\<lparr>bytes_processed :=
               bytes_processed (foldl track_line ?r1 (butlast ?parts)) + sum_list (map chunk_len rest),
             line_count := line_count (foldl track_line ?r1 (butlast ?parts))
               + length (butlast (str_split NL (last ?parts @ u)))\<rparr>)"
        by (rule Cons.IH [OF u nl])
      have "lines_loop dec buf r (chunk # rest) =
          (case lines_loop dec (last ?parts) (foldl track_line ?r1 (butlast ?parts)) rest of
             (out, err, b, r') \<Rightarrow> (butlast ?parts @ out, err, b, r'))"
        using False t True by (simp add: Let_def)
      also have "\<dots> = (butlast (str_split NL (buf @ T)), None, last (str_split NL (buf @ T)),
            r\<lparr>bytes_processed := bytes_processed r + sum_list (map chunk_len (chunk # rest)),
              line_count := line_count r + length (butlast (str_split NL (buf @ T)))\<rparr>)"
        unfolding IH by (simp add: sp butlast_append foldl_track_line)
      finally show ?thesis .
    next
      case nonl: False
      have IH: "lines_loop dec ?tb ?r1 rest =
         (butlast (str_split NL (?tb @ u)), None, last (str_split NL (?tb @ u)),
          ?r1\<lparr>bytes_processed := bytes_processed ?r1 + sum_list (map chunk_len rest),
             line_count := line_count ?r1 + length (butlast (str_split NL (?tb @ u)))\<rparr>)"
        by (rule Cons.IH [OF u nonl])
      have "lines_loop dec buf r (chunk # rest) = lines_loop dec ?tb ?r1 rest"
        using False t nonl by (simp add: Let_def)
      then show ?thesis by (simp add: IH T)
    qed
  qed
qed

lemma read_lines_decoded:
  assumes "decode_all (chunk_decode (encoding r) (errors r)) cs = Inr T"
  shows "read_lines_from_chunks r (cs, None) =
     (lines_of T, None,
      r\<lparr>bytes_processed := bytes_processed r + sum_list (map chunk_len cs),
        line_count := line_count r + length (lines_of T)\<rparr>)"
  using lines_loop_decoded [OF assms, of "[]" r]
  by (simp add: read_lines_from_chunks_def lines_of_def Let_def track_line_def)

lemma chunks_of_Nil [simp]: "chunks_of k [] = []"
  by (simp add: chunks_of.simps)

lemma chunks_of_0 [simp]: "chunks_of 0 xs = []"
  by (simp add: chunks_of.simps)

lemma concat_chunks_of: "0 < k \<Longrightarrow> concat (chunks_of k xs) = xs"
proof (induction k xs rule: chunks_of.induct)
  case (1 k xs)
  then show ?case by (cases "xs = []") (simp_all add: chunks_of.simps [of k xs])
qed

lemma chunks_of_nonempty: "[] \<notin> set (chunks_of k xs)"
proof (induction k xs rule: chunks_of.induct)
  case (1 k xs)
  then show ?case
    by (cases "k = 0 \<or> xs = []") (auto simp add: chunks_of.simps [of k xs])
qed

lemma concat_list_chunks: "n \<noteq> 0 \<Longrightarrow> concat (list_chunks n xs) = xs"
  by (simp add: list_chunks_def concat_chunks_of)

lemma list_chunks_nonempty: "[] \<notin> set (list_chunks n xs)"
  by (simp add: list_chunks_def chunks_of_nonempty)

lemma list_chunks_Nil [simp]: "list_chunks n [] = []"
  by (simp add: list_chunks_def)

lemma list_chunks_step:
  "list_chunks n xs =
     (let k = (if n < 0 then length xs else nat n) in
      if take k xs = [] then [] else take k xs # list_chunks n (drop k xs))"
  by (cases "xs = []")
     (auto simp: list_chunks_def Let_def chunks_of.simps [of "nat n" xs])

lemma length_concat_sum: "length (concat xss) = sum_list (map length xss)"
  by (induction xss) simp_all

lemma sum_length_list_chunks: "n \<noteq> 0 \<Longrightarrow> sum_list (map length (list_chunks n xs)) = length xs"
  using concat_list_chunks [of n xs] length_concat_sum [of "list_chunks n xs"] by simp

lemma list_chunks_mem: "y \<in> set (list_chunks n xs) \<Longrightarrow> y \<noteq> []"
  using list_chunks_nonempty [of n xs] by auto

lemma file_chunks_len: "n \<noteq> 0 \<Longrightarrow> sum_list (map chunk_len (file_chunks n c)) = chunk_len c"
  by (cases c) (simp_all add: file_chunks_def comp_def sum_length_list_chunks)

lemma file_chunks_nonempty: "x \<in> set (file_chunks n c) \<Longrightarrow> chunk_len x \<noteq> 0"
  by (cases c) (auto simp: file_chunks_def dest: list_chunks_mem)

lemma file_chunks_empty: "chunk_len c = 0 \<Longrightarrow> file_chunks n c = []"
  by (cases c) (simp_all add: file_chunks_def)

lemma file_chunks_step:
  assumes "k = (if n < 0 then chunk_len d else nat n)"
  shows "file_chunks n d =
     (if chunk_len (chunk_take k d) = 0 then []
      else chunk_take k d # file_chunks n (chunk_drop k d))"
proof (cases d)
  case (Bytes b)
  have "list_chunks n b = (if take k b = [] then [] else take k b # list_chunks n (drop k b))"
    using list_chunks_step [of n b] assms Bytes by (simp add: Let_def)
  then have "map Bytes (list_chunks n b) =
      (if take k b = [] then [] else Bytes (take k b) # map Bytes (list_chunks n (drop k b)))"
    by (metis (full_types) list.simps(8,9))
  then show ?thesis
    by (simp add: Bytes file_chunks_def)
next
  case (Str t)
  have "list_chunks n t = (if take k t = [] then [] else take k t # list_chunks n (drop k t))"
    using list_chunks_step [of n t] assms Str by (simp add: Let_def)
  then have "map Str (list_chunks n t) =
      (if take k t = [] then [] else Str (take k t) # map Str (list_chunks n (drop k t)))"
    by (metis (full_types) list.simps(8,9))
  then show ?thesis
    by (simp add: Str file_chunks_def)
qed

lemma fo_take_chunks:
  assumes "fo_take f n = (Inr c, f')"
  shows "if chunk_len c = 0 then file_chunks n (fo_data f) = []
         else file_chunks n (fo_data f) = c # file_chunks n (fo_data f')"
proof -
  define k where "k = (if n < 0 then chunk_len (fo_data f) else nat n)"
  from assms have c: "c = chunk_take k (fo_data f)"
    and f': "fo_data f' = chunk_drop k (fo_data f)"
    by (auto simp: fo_take_def Let_def k_def)
  show ?thesis
    unfolding c f' using file_chunks_step [OF k_def] by simp
qed

lemma fo_take_keeps:
  assumes "fo_take f n = (x, f')"
  shows "fo_closed f' = fo_closed f" "fo_fault f' = fo_fault f"
  using assms by (auto simp: fo_take_def Let_def)

lemma fo_read_cases:
  "fo_read f n =
     (if fo_closed f then (Inl (ValueError ''read of closed file''), f)
      else (case fo_fault f of
              None \<Rightarrow> fo_take f n
            | Some (k, e) \<Rightarrow>
                (if k = 0 then (Inl e, f) else fo_take (f\<lparr>fo_fault := Some (k - 1, e)\<rparr>) n)))"
  by (auto simp: fo_read_def split: option.splits nat.splits)

lemma chunk_reader_queue: "fst (chunk_reader f n) = expected_queue n f"
proof (induction f n rule: chunk_reader.induct)
  case (1 f n)
  show ?case
  proof (cases "fo_read f n")
    case (Pair res f')
    show ?thesis
    proof (cases res)
      case (Inl e)
      with Pair show ?thesis
        by (auto simp: chunk_reader.simps [of f n] expected_queue_def fo_read_cases fo_take_def
            Let_def split: if_splits option.splits prod.splits)
    next
      case (Inr c)
      have nc: "\<not> fo_closed f"
        using Pair Inr by (auto simp: fo_read_cases split: if_splits)
      show ?thesis
      proof (cases "chunk_len c = 0")
        case True
        have q: "fst (chunk_reader f n) = [QNone]"
          using Pair Inr True by (simp add: chunk_reader.simps [of f n])
        have "file_chunks n (fo_data f) = []"
          using Pair Inr True nc
          by (auto simp: fo_read_cases split: if_splits option.splits prod.splits
              dest!: fo_take_chunks)
        with nc Pair Inr show ?thesis
          unfolding q
          by (auto simp: expected_queue_def fo_read_cases
              split: if_splits option.splits prod.splits)
      next
        case False
        have IH: "fst (chunk_reader f' n) = expected_queue n f'"
          using "1.IH" [OF Pair [symmetric] Inr False] .
        have step: "fst (chunk_reader f n) = QChunk c # fst (chunk_reader f' n)"
          using Pair Inr False by (simp add: chunk_reader.simps [of f n] split: prod.splits)
        show ?thesis
        proof (cases "fo_fault f")
          case None
          with Pair Inr nc have t: "fo_take f n = (Inr c, f')"
            by (simp add: fo_read_cases)
          from fo_take_chunks [OF t] False
          have c: "file_chunks n (fo_data f) = c # file_chunks n (fo_data f')"
            by simp
          from fo_take_keeps [OF t] nc None show ?thesis
            unfolding step IH by (simp add: expected_queue_def Let_def c)
        next
          case (Some ke)
          obtain k e where ke: "ke = (k, e)" by (cases ke)
          with Some Pair Inr nc have k: "k \<noteq> 0"
            and t: "fo_take (f\<lparr>fo_fault := Some (k - 1, e)\<rparr>) n = (Inr c, f')"
            by (auto simp: fo_read_cases split: if_splits)
          from fo_take_chunks [OF t] False
          have c: "file_chunks n (fo_data f) = c # file_chunks n (fo_data f')"
            by simp
          from fo_take_keeps [OF t] nc have f': "\<not> fo_closed f'" "fo_fault f' = Some (k - 1, e)"
            by simp_all
          from k obtain k' where k': "k = Suc k'" by (cases k) auto
          show ?thesis
            unfolding step IH using nc Some ke f'
            by (simp add: expected_queue_def Let_def c k')
        qed
      qed
    qed
  qed
qed


lemma queue_consumer_sentinel: "queue_consumer (map QChunk cs @ QNone # q) = Some (cs, None)"
  by (induction cs) simp_all

lemma expected_queue_nofault:
  "\<not> fo_closed f \<Longrightarrow> fo_fault f = None \<Longrightarrow>
   expected_queue n f = map QChunk (file_chunks n (fo_data f)) @ [QNone]"
  by (simp add: expected_queue_def)

lemma consumer_of_reader: "queue_consumer (fst (chunk_reader f n)) = Some (compressed_loop f n)"
proof (induction f n rule: chunk_reader.induct)
  case (1 f n)
  show ?case
  proof (cases "fo_read f n")
    case (Pair res f')
    show ?thesis
    proof (cases res)
      case (Inl e)
      with Pair show ?thesis
        by (simp add: chunk_reader.simps [of f n] compressed_loop.simps [of f n])
    next
      case (Inr c)
      show ?thesis
      proof (cases "chunk_len c = 0")
        case True
        with Pair Inr show ?thesis
          by (simp add: chunk_reader.simps [of f n] compressed_loop.simps [of f n])
      next
        case False
        have IH: "queue_consumer (fst (chunk_reader f' n)) = Some (compressed_loop f' n)"
          using "1.IH" [OF Pair [symmetric] Inr False] .
        show ?thesis
          using Pair Inr False IH
          by (cases "chunk_reader f' n"; cases "compressed_loop f' n")
             (simp add: chunk_reader.simps [of f n] compressed_loop.simps [of f n])
      qed
    qed
  qed
qed

lemma compressed_loop_nofault:
  assumes "\<not> fo_closed f" "fo_fault f = None"
  shows "compressed_loop f n = (file_chunks n (fo_data f), None)"
proof -
  have "Some (compressed_loop f n) = queue_consumer (expected_queue n f)"
    by (simp add: consumer_of_reader [symmetric] chunk_reader_queue)
  also have "\<dots> = Some (file_chunks n (fo_data f), None)"
    by (simp add: expected_queue_nofault [OF assms] queue_consumer_sentinel)
  finally show ?thesis by simp
qed

lemma chunk_iterator_of_source:
  assumes "source_of w r = Inr f" "\<not> fo_closed f" "fo_fault f = None"
  shows "\<exists>fo. (if compression_type r \<noteq> COMPRESSION_NONE
               then Some (compressed_chunk_iterator w r n, r)
               else buffered_chunk_iterator w r n)
            = Some ((file_chunks n (fo_data f), None), r\<lparr>file_obj := fo\<rparr>)"
proof (cases "compression_type r \<noteq> COMPRESSION_NONE")
  case True
  with assms(1) have "compressed_chunk_iterator w r n = compressed_loop f n"
    by (auto simp: source_of_def compressed_chunk_iterator_def
        split: option.splits attr_val.splits sum.splits)
  with True compressed_loop_nofault [OF assms(2,3)] show ?thesis
    by (auto intro: exI [of _ "file_obj r"])
next
  case False
  with assms(1) obtain r1 where r1: "ensure_file_open w r = Inr r1" "file_obj r1 = Some f"
      "r1 = r\<lparr>file_obj := Some f\<rparr>"
    by (auto simp: source_of_def ensure_file_open_def
        split: option.splits attr_val.splits sum.splits)
  have q: "queue_consumer (fst (chunk_reader f n)) = Some (file_chunks n (fo_data f), None)"
    by (simp add: consumer_of_reader compressed_loop_nofault [OF assms(2,3)])
  show ?thesis
    using False r1 q
    by (cases "chunk_reader f n") (auto simp: buffered_chunk_iterator_def)
qed

lemma get_chunk_size_nonzero: "get_chunk_size r \<noteq> 0"
  by (cases "compression_type r")
     (auto simp: get_chunk_size_def truthy_def DEFAULT_CHUNK_SIZES_def split: option.splits)

lemma close_fst: "fst (close r) = None"
  by (simp add: close_def fo_close_def split: option.splits prod.splits)

lemma close_snd:
  "closed (snd (close r)) \<and> line_count (snd (close r)) = line_count r \<and>
   bytes_processed (snd (close r)) = bytes_processed r \<and>
   total_time (snd (close r)) = total_time r \<and> mode (snd (close r)) = mode r \<and>
   file_path (snd (close r)) = file_path r"
  by (simp add: close_def fo_close_def split: option.splits prod.splits)

lemma source_of_update:
  "source_of w (r\<lparr>start_time := a, mode := m\<rparr>) = source_of w r"
  by (simp add: source_of_def split: option.splits attr_val.splits)

lemma get_chunk_size_update:
  "get_chunk_size (r\<lparr>start_time := a\<rparr>) = get_chunk_size r"
  by (simp add: get_chunk_size_def split: option.splits)

lemma close_case:
  "(case close x of (Some e, r5) \<Rightarrow> A e r5 | (None, r5) \<Rightarrow> B r5) = B (snd (close x))"
  using close_fst [of x] by (cases "close x") simp

lemma iter_unfold:
  "iter w t0 t1 r =
     (case (if compression_type r \<noteq> COMPRESSION_NONE
            then Some (compressed_chunk_iterator w
                   (r\<lparr>start_time := Some t0,
                      mode := Some (if compression_type r \<noteq> COMPRESSION_NONE
                                    then ''compressed'' else ''buffered'')\<rparr>)
                   (get_chunk_size r),
                 r\<lparr>start_time := Some t0,
                   mode := Some (if compression_type r \<noteq> COMPRESSION_NONE
                                 then ''compressed'' else ''buffered'')\<rparr>)
            else buffered_chunk_iterator w
                   (r\<lparr>start_time := Some t0,
                      mode := Some (if compression_type r \<noteq> COMPRESSION_NONE
                                    then ''compressed'' else ''buffered'')\<rparr>)
                   (get_chunk_size r)) of
        None \<Rightarrow> None
      | Some (ci, r3) \<Rightarrow>
          (case read_lines_from_chunks r3 ci of
             (out, err, r4) \<Rightarrow> Some (out, err, snd (close (r4\<lparr>total_time := t1 - t0\<rparr>)))))"
  unfolding iter_def Let_def close_case by (simp add: get_chunk_size_update)

lemma iter_decoded:
  assumes src: "source_of w r = Inr f" "\<not> fo_closed f" "fo_fault f = None"
    and dec: "decode_all (chunk_decode (encoding r) (errors r))
                (file_chunks (get_chunk_size r) (fo_data f)) = Inr T"
  shows "\<exists>r'. iter w t0 t1 r = Some (lines_of T, None, r') \<and>
           line_count r' = line_count r + length (lines_of T) \<and>
           bytes_processed r' = bytes_processed r + chunk_len (fo_data f) \<and>
           total_time r' = t1 - t0 \<and> closed r'"
proof -
  let ?m = "Some (if compression_type r \<noteq> COMPRESSION_NONE then ''compressed'' else ''buffered'')"
  let ?r2 = "r\<lparr>start_time := Some t0, mode := ?m\<rparr>"
  let ?n = "get_chunk_size r"
  let ?cs = "file_chunks ?n (fo_data f)"
  have n: "get_chunk_size (r\<lparr>start_time := Some t0\<rparr>) = ?n"
    by (rule get_chunk_size_update)
  have "source_of w ?r2 = Inr f" using src(1) by (simp only: source_of_update)
  from chunk_iterator_of_source [OF this src(2,3), of ?n]
  obtain fo where it: "(if compression_type r \<noteq> COMPRESSION_NONE
               then Some (compressed_chunk_iterator w ?r2 ?n, ?r2)
               else buffered_chunk_iterator w ?r2 ?n)
            = Some ((?cs, None), ?r2\<lparr>file_obj := fo\<rparr>)"
    by auto
  let ?r3 = "?r2\<lparr>file_obj := fo\<rparr>"
  have "decode_all (chunk_decode (encoding ?r3) (errors ?r3)) ?cs = Inr T"
    using dec by simp
  from read_lines_decoded [OF this]
  have rl: "read_lines_from_chunks ?r3 (?cs, None) =
     (lines_of T, None,
      ?r3\<lparr>bytes_processed := bytes_processed r + chunk_len (fo_data f),
        line_count := line_count r + length (lines_of T)\<rparr>)"
    by (simp add: file_chunks_len [OF get_chunk_size_nonzero])
  let ?r4 = "?r3\<lparr>bytes_processed := bytes_processed r + chunk_len (fo_data f),
        line_count := line_count r + length (lines_of T), total_time := t1 - t0\<rparr>"
  have "iter w t0 t1 r = Some (lines_of T, None, snd (close ?r4))"
    unfolding iter_unfold it by (simp add: rl)
  then show ?thesis
    using close_snd [of ?r4] by simp
qed

lemma lines_of_Nil: "lines_of [] = []"
  by (simp add: lines_of_def)

lemma lines_of_terminated: "lines_of (pre @ [NL]) = str_split NL pre"
  by (simp add: lines_of_def str_split_snoc_sep)

lemma str_split_fragment:
  assumes "NL \<notin> set frag"
  shows "str_split NL (pre @ NL # frag) = str_split NL pre @ [frag]"
proof -
  have "str_split NL ((pre @ [NL]) @ frag)
      = butlast (str_split NL (pre @ [NL])) @ str_split NL (last (str_split NL (pre @ [NL])) @ frag)"
    by (rule str_split_append)
  then show ?thesis
    using assms by (simp add: str_split_snoc_sep str_split_no_sep)
qed

lemma lines_of_fragment:
  assumes "frag \<noteq> []" "NL \<notin> set frag" "pre = [] \<or> last pre = NL"
  shows "lines_of (pre @ frag) = lines_of pre @ [frag]"
proof (cases "pre = []")
  case True
  with assms show ?thesis by (simp add: lines_of_def str_split_no_sep)
next
  case False
  with assms(3) obtain p where p: "pre = p @ [NL]"
    by (metis append_butlast_last_id)
  have a: "lines_of (p @ [NL]) = str_split NL p"
    by (rule lines_of_terminated)
  have b: "lines_of (p @ NL # frag) = str_split NL p @ [frag]"
    using assms(1) by (simp add: lines_of_def str_split_fragment [OF assms(2)])
  show ?thesis
    using a b by (simp add: p)
qed

lemma last_str_split_nonempty:
  assumes "t \<noteq> []" "last t \<noteq> NL"
  shows "last (str_split NL t) \<noteq> []"
proof -
  from assms(1) obtain xs c where t: "t = xs @ [c]"
    by (metis append_butlast_last_id)
  with assms(2) have "c \<noteq> NL" by simp
  then show ?thesis by (simp add: t last_str_split_snoc)
qed

lemma rejoin_lines_of: "rejoin (t \<noteq> [] \<and> last t = NL) (lines_of t) = t"
proof (cases "t = []")
  case True
  then show ?thesis by (simp add: lines_of_Nil)
next
  case False
  show ?thesis
  proof (cases "last t = NL")
    case True
    with False obtain pre where t: "t = pre @ [NL]"
      by (metis append_butlast_last_id)
    show ?thesis
      by (simp add: t lines_of_terminated rejoin_True rejoin_str_split)
  next
    case nl: False
    have "lines_of t = str_split NL t"
      using last_str_split_nonempty [OF False nl]
      by (simp add: lines_of_def)
    with nl show ?thesis by (simp add: rejoin_str_split)
  qed
qed

lemma decode_latin1: "decode_from latin1_step codec pol pos b = Inr (map unat b)"
  by (induction b arbitrary: pos) (simp_all add: latin1_step_def)

lemma decode_ascii_bytes:
  "\<forall>x\<in>set b. x < 0x80 \<Longrightarrow> decode_from ascii_step codec pol pos b = Inr (map unat b)"
  by (induction b arbitrary: pos) (simp_all add: ascii_step_def)

lemma decode_utf8_ascii_bytes:
  "\<forall>x\<in>set b. x < 0x80 \<Longrightarrow> decode_from utf8_step codec pol pos b = Inr (map unat b)"
  by (induction b arbitrary: pos) (simp_all add: utf8_step_def)

lemma bytes_decode_single_byte:
  "enc = Latin1 \<or> (\<forall>x\<in>set b. x < 0x80) \<Longrightarrow> bytes_decode enc pol b = Inr (map unat b)"
  by (cases enc)
     (auto simp: bytes_decode_def decode_latin1 decode_ascii_bytes decode_utf8_ascii_bytes)

lemma decode_all_bytes_pointwise:
  "\<forall>c\<in>set cs. dec (Bytes c) = Inr (map unat c) \<Longrightarrow>
   decode_all dec (map Bytes cs) = Inr (map unat (concat cs))"
  by (induction cs) simp_all

lemma decode_all_single_byte:
  assumes "enc = Latin1 \<or> (\<forall>x\<in>set (concat cs). x < 0x80)"
  shows "decode_all (chunk_decode enc pol) (map Bytes cs) = Inr (map unat (concat cs))"
proof (rule decode_all_bytes_pointwise, rule ballI)
  fix c assume "c \<in> set cs"
  with assms have "enc = Latin1 \<or> (\<forall>x\<in>set c. x < 0x80)" by auto
  then show "chunk_decode enc pol (Bytes c) = Inr (map unat c)"
    by (simp add: chunk_decode_def bytes_decode_single_byte)
qed

lemma decode_chunks_single_byte:
  assumes "n \<noteq> 0" and "enc = Latin1 \<or> (\<forall>x\<in>set b. x < 0x80)"
  shows "decode_all (chunk_decode enc pol) (file_chunks n (Bytes b)) = Inr (map unat b)"
  using decode_all_single_byte [of enc "list_chunks n b" pol] assms
  by (simp add: file_chunks_def concat_list_chunks)

lemma iter_single_byte:
  assumes src: "source_of w r = Inr f" "\<not> fo_closed f" "fo_fault f = None"
    and data: "fo_data f = Bytes b"
    and enc: "encoding r = Latin1 \<or> (\<forall>x\<in>set b. x < 0x80)"
  shows "\<exists>r'. iter w t0 t1 r = Some (lines_of (map unat b), None, r') \<and>
           line_count r' = line_count r + length (lines_of (map unat b)) \<and>
           bytes_processed r' = bytes_processed r + length b \<and>
           total_time r' = t1 - t0 \<and> closed r'"
proof -
  have "decode_all (chunk_decode (encoding r) (errors r))
          (file_chunks (get_chunk_size r) (fo_data f)) = Inr (map unat b)"
    unfolding data by (rule decode_chunks_single_byte [OF get_chunk_size_nonzero enc])
  from iter_decoded [OF src this, of t0 t1] show ?thesis
    by (simp add: data)
qed

lemma read_lines_first_undecodable:
  assumes "chunk_len chunk \<noteq> 0" "chunk_decode (encoding r) (errors r) chunk = Inl e"
  shows "read_lines_from_chunks r (chunk # rest, None) =
     ([], Some e, r\<lparr>bytes_processed := bytes_processed r + chunk_len chunk\<rparr>)"
  using assms by (simp add: read_lines_from_chunks_def Let_def)

lemma iter_first_undecodable:
  assumes src: "source_of w r = Inr f" "\<not> fo_closed f" "fo_fault f = None"
    and cs: "file_chunks (get_chunk_size r) (fo_data f) = chunk # rest"
    and dec: "chunk_decode (encoding r) (errors r) chunk = Inl e"
  shows "\<exists>r'. iter w t0 t1 r = Some ([], Some e, r') \<and>
           bytes_processed r' = bytes_processed r + chunk_len chunk \<and> line_count r' = line_count r"
proof -
  let ?m = "Some (if compression_type r \<noteq> COMPRESSION_NONE then ''compressed'' else ''buffered'')"
  let ?r2 = "r\<lparr>start_time := Some t0, mode := ?m\<rparr>"
  let ?n = "get_chunk_size r"
  have ne: "chunk_len chunk \<noteq> 0"
    using file_chunks_nonempty [of chunk ?n "fo_data f"] cs by simp
  have "source_of w ?r2 = Inr f" using src(1) by (simp only: source_of_update)
  from chunk_iterator_of_source [OF this src(2,3), of ?n]
  obtain fo where it: "(if compression_type r \<noteq> COMPRESSION_NONE
               then Some (compressed_chunk_iterator w ?r2 ?n, ?r2)
               else buffered_chunk_iterator w ?r2 ?n)
            = Some ((chunk # rest, None), ?r2\<lparr>file_obj := fo\<rparr>)"
    by (auto simp: cs)
  let ?r3 = "?r2\<lparr>file_obj := fo\<rparr>"
  let ?r4 = "?r3\<lparr>bytes_processed := bytes_processed r + chunk_len chunk,
                total_time := t1 - t0\<rparr>"
  have "chunk_decode (encoding ?r3) (errors ?r3) chunk = Inl e"
    using dec by simp
  from read_lines_first_undecodable [OF ne this, of rest]
  have "iter w t0 t1 r = Some ([], Some e, snd (close ?r4))"
    unfolding iter_unfold it by simp
  then show ?thesis
    using close_snd [of ?r4] by simp
qed

lemma detect_IntVal: "detect_compression_type (IntVal i) = COMPRESSION_NONE"
  by (simp add: detect_compression_type_def compression_map_def isinstance_str_def)

lemma detect_StrVal:
  "detect_compression_type (StrVal p) =
     (if endswith p ''.gz'' then COMPRESSION_GZIP
      else if endswith p ''.bz2'' then COMPRESSION_BZIP2
      else if endswith p ''.xz'' then COMPRESSION_XZ
      else if endswith p ''.lzma'' then COMPRESSION_LZMA
      else COMPRESSION_NONE)"
  by (simp add: detect_compression_type_def compression_map_def isinstance_str_def
      str_endswith_def)

lemma init_Path:
  "init (Path p) cs enc pol dbg =
     Inr \<lparr> user_chunk_size = cs, encoding = enc, errors = pol, debug = dbg,
           closed = False, line_count = 0, bytes_processed = 0, start_time = None,
           total_time = 0, mode = None, file_path = StrVal p, file_obj = None,
           compression_type = detect_compression_type (StrVal p) \<rparr>"
  by (simp add: init_def initialize_file_properties_def)

lemma init_binary_stream:
  "init (Stream (binary_stream b)) cs enc pol dbg =
     Inr \<lparr> user_chunk_size = cs, encoding = enc, errors = pol, debug = dbg,
           closed = False, line_count = 0, bytes_processed = 0, start_time = None,
           total_time = 0, mode = None, file_path = StrVal ''<unknown>'',
           file_obj = Some (binary_stream b), compression_type = COMPRESSION_NONE \<rparr>"
  by (simp add: init_def initialize_file_properties_def binary_stream_def detect_StrVal
      endswith_def)

lemma init_fields:
  assumes "init src cs enc pol dbg = Inr r"
  shows "user_chunk_size r = cs" "encoding r = enc" "errors r = pol" "line_count r = 0"
    "bytes_processed r = 0" "compression_type r = detect_compression_type (file_path r)"
    "file_path r = (case src of Path p \<Rightarrow> StrVal p
        | Stream f \<Rightarrow> (case fo_name f of Some n \<Rightarrow> n | None \<Rightarrow> StrVal ''<unknown>''))"
    "file_obj r = (case src of Path p \<Rightarrow> None | Stream f \<Rightarrow> Some f)"
  using assms
  by (auto simp: init_def initialize_file_properties_def Let_def
      split: sum.splits prod.splits source.splits option.splits if_splits)




lemma default_chunk_size:
  "get_chunk_size (r\<lparr>user_chunk_size := None\<rparr>) =
     (case compression_type r of
        COMPRESSION_NONE \<Rightarrow> 134217728
      | COMPRESSION_GZIP \<Rightarrow> 33554432
      | COMPRESSION_BZIP2 \<Rightarrow> 16777216
      | COMPRESSION_XZ \<Rightarrow> 33554432
      | COMPRESSION_LZMA \<Rightarrow> 33554432)"
  by (cases "compression_type r") (simp_all add: get_chunk_size_def DEFAULT_CHUNK_SIZES_def)

lemma user_chunk_size_used:
  "get_chunk_size (r\<lparr>user_chunk_size := Some n\<rparr>) =
     (if n = 0 then get_chunk_size (r\<lparr>user_chunk_size := None\<rparr>) else n)"
  by (simp add: get_chunk_size_def truthy_def)

lemma get_stats_total: "\<exists>s. get_stats r = Inr s"
  by (simp add: get_stats_def truediv_def)

lemma round2_0: "round2 0 = 0"
  by (simp add: round2_def round_half_even_def)

lemma get_stats_zero:
  "line_count r = 0 \<Longrightarrow> bytes_processed r = 0 \<Longrightarrow>
   \<exists>s. get_stats r = Inr s \<and> st_lines s = 0 \<and> st_bytes s = 0 \<and> st_lines_s s = 0 \<and> st_MB_s s = 0"
  by (simp add: get_stats_def truediv_def round2_0 py_int_def)


lemma init_stream_ok:
  assumes "fo_mode f = Some ''rb''"
  shows "\<exists>r. init (Stream f) cs enc pol dbg = Inr r \<and> file_obj r = Some f"
  using assms by (simp add: init_def initialize_file_properties_def)



lemma iter_binary_stream:
  assumes "n \<noteq> 0" and "decode_all (chunk_decode enc pol) (file_chunks n (Bytes b)) = Inr T"
  shows "\<exists>r r'. init (Stream (binary_stream b)) (Some n) enc pol dbg = Inr r
           \<and> iter w t0 t1 r = Some (lines_of T, None, r')"
proof -
  let ?r = "\<lparr> user_chunk_size = Some n, encoding = enc, errors = pol, debug = dbg,
           closed = False, line_count = 0, bytes_processed = 0, start_time = None,
           total_time = 0, mode = None, file_path = StrVal ''<unknown>'',
           file_obj = Some (binary_stream b), compression_type = COMPRESSION_NONE \<rparr>"
  have s: "source_of w ?r = Inr (binary_stream b)"
    by (simp add: source_of_def)
  have f: "\<not> fo_closed (binary_stream b)" "fo_fault (binary_stream b) = None"
    by (simp_all add: binary_stream_def)
  have n: "get_chunk_size ?r = n"
    using assms(1) by (simp add: get_chunk_size_def truthy_def)
  have d: "fo_data (binary_stream b) = Bytes b"
    by (simp add: binary_stream_def)
  have "decode_all (chunk_decode (encoding ?r) (errors ?r))
          (file_chunks (get_chunk_size ?r) (fo_data (binary_stream b))) = Inr T"
    unfolding n d using assms(2) by simp
  from iter_decoded [OF s f this, of t0 t1] show ?thesis
    using init_binary_stream [of b "Some n" enc pol dbg] by blast
qed

lemma iter_binary_stream_undecodable:
  assumes "n \<noteq> 0" and "file_chunks n (Bytes b) = chunk # rest"
    and "chunk_decode enc pol chunk = Inl e"
  shows "\<exists>r r'. init (Stream (binary_stream b)) (Some n) enc pol dbg = Inr r
           \<and> iter w t0 t1 r = Some ([], Some e, r')"
proof -
  let ?r = "\<lparr> user_chunk_size = Some n, encoding = enc, errors = pol, debug = dbg,
           closed = False, line_count = 0, bytes_processed = 0, start_time = None,
           total_time = 0, mode = None, file_path = StrVal ''<unknown>'',
           file_obj = Some (binary_stream b), compression_type = COMPRESSION_NONE \<rparr>"
  have s: "source_of w ?r = Inr (binary_stream b)"
    by (simp add: source_of_def)
  have f: "\<not> fo_closed (binary_stream b)" "fo_fault (binary_stream b) = None"
    by (simp_all add: binary_stream_def)
  have n: "get_chunk_size ?r = n"
    using assms(1) by (simp add: get_chunk_size_def truthy_def)
  have b: "fo_data (binary_stream b) = Bytes b"
    by (simp add: binary_stream_def)
  have c: "file_chunks (get_chunk_size ?r) (fo_data (binary_stream b)) = chunk # rest"
    unfolding n b using assms(2) .
  have d: "chunk_decode (encoding ?r) (errors ?r) chunk = Inl e"
    using assms(3) by simp
  from iter_first_undecodable [OF s f c d, of t0 t1] show ?thesis
    using init_binary_stream [of b "Some n" enc pol dbg] by blast
qed

lemma e_acute_whole: "bytes_decode Utf8 pol [0xC3, 0xA9] = Inr [0xE9]"
  by (simp add: bytes_decode_def utf8_step_def is_cont_def)

lemma e_acute_halves_replaced:
  "chunk_decode Utf8 Replace (Bytes [0xC3]) = Inr [0xFFFD]"
  "chunk_decode Utf8 Replace (Bytes [0xA9]) = Inr [0xFFFD]"
  by (simp_all add: chunk_decode_def bytes_decode_def utf8_step_def is_cont_def)

lemma e_acute_first_half_strict:
  "chunk_decode Utf8 Strict (Bytes [0xC3])
     = Inl (UnicodeDecodeError ''utf-8'' 0 1 ''unexpected end of data'')"
  by (simp add: chunk_decode_def bytes_decode_def utf8_step_def is_cont_def)

lemma e_acute_chunks:
  "file_chunks 1 (Bytes [0xC3, 0xA9]) = [Bytes [0xC3], Bytes [0xA9]]"
  "file_chunks 2 (Bytes [0xC3, 0xA9]) = [Bytes [0xC3, 0xA9]]"
  by (simp_all add: file_chunks_def list_chunks_def chunks_of.simps)

lemma e_acute_split_run:
  "\<exists>r r'. init (Stream (binary_stream [0xC3, 0xA9])) (Some 1) Utf8 Replace dbg = Inr r
      \<and> iter w t0 t1 r = Some ([[0xFFFD, 0xFFFD]], None, r')"
proof -
  have "decode_all (chunk_decode Utf8 Replace) (file_chunks 1 (Bytes [0xC3, 0xA9]))
      = Inr [0xFFFD, 0xFFFD]"
    by (simp add: e_acute_chunks e_acute_halves_replaced)
  from iter_binary_stream [OF _ this, of dbg w t0 t1] show ?thesis
    by (simp add: lines_of_def NL_def)
qed

lemma e_acute_split_strict_run:
  "\<exists>r r'. init (Stream (binary_stream [0xC3, 0xA9])) (Some 1) Utf8 Strict dbg = Inr r
      \<and> iter w t0 t1 r
          = Some ([], Some (UnicodeDecodeError ''utf-8'' 0 1 ''unexpected end of data''), r')"
  by (rule iter_binary_stream_undecodable [OF _ e_acute_chunks(1) e_acute_first_half_strict])
     simp

lemma e_acute_whole_run:
  "\<exists>r r'. init (Stream (binary_stream [0xC3, 0xA9])) (Some 2) Utf8 Replace dbg = Inr r
      \<and> iter w t0 t1 r = Some ([[0xE9]], None, r')"
proof -
  have "decode_all (chunk_decode Utf8 Replace) (file_chunks 2 (Bytes [0xC3, 0xA9])) = Inr [0xE9]"
    by (simp add: e_acute_chunks chunk_decode_def e_acute_whole)
  from iter_binary_stream [OF _ this, of dbg w t0 t1] show ?thesis
    by (simp add: lines_of_def NL_def)
qed

text \<open>
  Where every byte is a character of its own (Latin-1, or content within ASCII)
  decoding chunk by chunk is decoding the whole: the lines are those of the whole
  content whatever the chunk size, putting the terminators back gives the
  content again, and the end of the content is treated as it should be.
\<close>

lemma single_byte_lines_independent_of_chunk_size:
  assumes "source_of w r = Inr f" "\<not> fo_closed f" "fo_fault f = None"
    and "source_of w' r' = Inr f'" "\<not> fo_closed f'" "fo_fault f' = None"
    and "fo_data f = Bytes b" "fo_data f' = Bytes b"
    and "encoding r = Latin1 \<and> encoding r' = Latin1 \<or> (\<forall>x\<in>set b. x < 0x80)"
  shows "map_option fst (iter w t0 t1 r) = map_option fst (iter w' t0' t1' r')"
proof -
  have a: "encoding r = Latin1 \<or> (\<forall>x\<in>set b. x < 0x80)"
    and b: "encoding r' = Latin1 \<or> (\<forall>x\<in>set b. x < 0x80)"
    using assms(9) by auto
  from iter_single_byte [OF assms(1,2,3,7) a, of t0 t1]
    iter_single_byte [OF assms(4,5,6,8) b, of t0' t1']
  show ?thesis by auto
qed

lemma single_byte_round_trip:
  assumes "source_of w r = Inr f" "\<not> fo_closed f" "fo_fault f = None"
    and "fo_data f = Bytes b"
    and "encoding r = Latin1 \<or> (\<forall>x\<in>set b. x < 0x80)"
  shows "\<exists>out r'. iter w t0 t1 r = Some (out, None, r')
     \<and> bytes_decode (encoding r) (errors r) b = Inr (map unat b)
     \<and> rejoin (b \<noteq> [] \<and> last b = 0x0A) out = map unat b"
proof -
  let ?t = "map unat b"
  from iter_single_byte [OF assms, of t0 t1]
  obtain r' where r': "iter w t0 t1 r = Some (lines_of ?t, None, r')"
    by blast
  have u: "(unat x = 10) = (x = 10)" for x :: byte
    by (simp add: word_unat_eq_iff)
  have l: "last ?t = NL \<longleftrightarrow> last b = 0x0A" if "b \<noteq> []"
    using that by (simp add: last_map NL_def u)
  have "rejoin (b \<noteq> [] \<and> last b = 0x0A) (lines_of ?t) = ?t"
    using rejoin_lines_of [of ?t] l by (cases "b = []") (auto simp: lines_of_Nil)
  with r' bytes_decode_single_byte [OF assms(5), of "errors r"] show ?thesis
    by blast
qed

lemma single_byte_end_of_stream_lines:
  assumes "source_of w r = Inr f" "\<not> fo_closed f" "fo_fault f = None"
    and "fo_data f = Bytes b"
    and "encoding r = Latin1 \<or> (\<forall>x\<in>set b. x < 0x80)"
  shows "\<exists>content out r'. bytes_decode (encoding r) (errors r) b = Inr content
     \<and> iter w t0 t1 r = Some (out, None, r')
     \<and> (\<forall>pre. content = pre @ [NL] \<longrightarrow> out = str_split NL pre)
     \<and> (\<forall>pre frag. content = pre @ frag \<and> frag \<noteq> [] \<and> NL \<notin> set frag
           \<and> (pre = [] \<or> last pre = NL) \<longrightarrow> out \<noteq> [] \<and> last out = frag)"
proof -
  let ?t = "map unat b"
  from iter_single_byte [OF assms, of t0 t1]
  obtain r' where r': "iter w t0 t1 r = Some (lines_of ?t, None, r')"
    by blast
  have a: "lines_of ?t = str_split NL pre" if "?t = pre @ [NL]" for pre
    using that by (simp add: lines_of_terminated)
  have c: "lines_of ?t \<noteq> [] \<and> last (lines_of ?t) = frag"
    if "?t = pre @ frag \<and> frag \<noteq> [] \<and> NL \<notin> set frag \<and> (pre = [] \<or> last pre = NL)"
    for pre frag
    using that lines_of_fragment [of frag pre] by auto
  from r' a c bytes_decode_single_byte [OF assms(5), of "errors r"] show ?thesis
    by blast
qed

lemma x_y_lines:
  assumes "source_of w r = Inr f" "\<not> fo_closed f" "fo_fault f = None"
    and "fo_data f = Bytes [0x78, 0x0A, 0x79, 0x0A]"
  shows "\<exists>r'. iter w t0 t1 r = Some ([[0x78], [0x79]], None, r')"
proof -
  have "encoding r = Latin1 \<or> (\<forall>x\<in>set [0x78, 0x0A, 0x79, 0x0A :: byte]. x < 0x80)"
    by simp
  from iter_single_byte [OF assms this, of t0 t1]
  obtain r' where "iter w t0 t1 r
      = Some (lines_of (map unat [0x78, 0x0A, 0x79, 0x0A :: byte]), None, r')"
    by blast
  moreover have "lines_of (map unat [0x78, 0x0A, 0x79, 0x0A :: byte]) = [[0x78], [0x79]]"
    by (simp add: lines_of_def NL_def)
  ultimately show ?thesis by auto
qed

section \<open>The claims\<close>

text \<open>
  Claim C3, as amended. Format detection is a function of the suffix of
  \<open>file_path\<close>, which is the path string or, for a stream object, its \<open>name\<close>
  attribute (\<open><unknown>\<close> when it has none): a value that is not a string, and a
  string without one of the four suffixes, give the format none, and no value is
  an error. A reader built on a path has the format of the path; a reader built on
  a stream has the format of the stream's name, which is none for a stream without
  a name.
\<close>

theorem detection_follows_file_path:
  "detect_compression_type (IntVal i) = COMPRESSION_NONE
   \<and> detect_compression_type (StrVal p) =
       (if endswith p ''.gz'' then COMPRESSION_GZIP
        else if endswith p ''.bz2'' then COMPRESSION_BZIP2
        else if endswith p ''.xz'' then COMPRESSION_XZ
        else if endswith p ''.lzma'' then COMPRESSION_LZMA
        else COMPRESSION_NONE)
   \<and> (\<exists>r. init (Path p) cs enc pol dbg = Inr r
          \<and> compression_type r = detect_compression_type (StrVal p))
   \<and> (init (Stream f) cs enc pol dbg = Inr r' \<longrightarrow>
        compression_type r' =
          detect_compression_type
            (case fo_name f of Some n \<Rightarrow> n | None \<Rightarrow> StrVal ''<unknown>''))
   \<and> (fo_name f = None \<longrightarrow> init (Stream f) cs enc pol dbg = Inr r' \<longrightarrow>
        compression_type r' = COMPRESSION_NONE)"
proof -
  have unknown: "detect_compression_type (StrVal ''<unknown>'') = COMPRESSION_NONE"
    by (simp add: detect_StrVal endswith_def)
  have stream: "compression_type r' =
          detect_compression_type
            (case fo_name f of Some n \<Rightarrow> n | None \<Rightarrow> StrVal ''<unknown>'')"
    if "init (Stream f) cs enc pol dbg = Inr r'"
    using init_fields(6,7) [OF that] by simp
  show ?thesis
    using stream unknown by (simp add: detect_IntVal detect_StrVal init_Path)
qed

theorem detection_follows_file_path_witness:
  "fo_name (binary_stream []) = None
   \<and> map_sum id compression_type (init (Stream (binary_stream [])) None Utf8 Replace False)
       = Inr COMPRESSION_NONE
   \<and> detect_compression_type (StrVal ''notes.txt'') = COMPRESSION_NONE
   \<and> detect_compression_type (StrVal ''dump.tar.gz'') = COMPRESSION_GZIP"
proof -
  let ?r = "\<lparr> user_chunk_size = None, encoding = Utf8, errors = Replace, debug = False,
           closed = False, line_count = 0, bytes_processed = 0, start_time = None,
           total_time = 0, mode = None, file_path = StrVal ''<unknown>'',
           file_obj = Some (binary_stream []), compression_type = COMPRESSION_NONE \<rparr>"
  have i: "init (Stream (binary_stream [])) None Utf8 Replace False = Inr ?r"
    by (rule init_binary_stream)
  have n: "fo_name (binary_stream []) = None"
    by (simp add: binary_stream_def)
  have a: "compression_type ?r = COMPRESSION_NONE"
    using detection_follows_file_path [of 0 "''notes.txt''" None Utf8 Replace False
        "binary_stream []" ?r] n i by blast
  have b: "detect_compression_type (StrVal ''notes.txt'') = COMPRESSION_NONE"
    using detection_follows_file_path [of 0 "''notes.txt''" None Utf8 Replace False
        "binary_stream []" ?r] by (simp add: endswith_def)
  have c: "detect_compression_type (StrVal ''dump.tar.gz'') = COMPRESSION_GZIP"
    using detection_follows_file_path [of 0 "''dump.tar.gz''" None Utf8 Replace False
        "binary_stream []" ?r] by (simp add: endswith_def)
  show ?thesis using n i a b c by simp
qed

text \<open>
  Claim C3 as stated fails: a binary stream whose name ends in \<open>.gz\<close> is a stream
  object, and the reader built on it has the format gzip, not none.
\<close>

theorem named_stream_is_detected_as_gzip:
  "map_sum id compression_type
     (init (Stream ((binary_stream [])\<lparr>fo_name := Some (StrVal ''a.gz'')\<rparr>))
        None Utf8 Replace False) = Inr COMPRESSION_GZIP"
  by (simp add: init_def initialize_file_properties_def binary_stream_def detect_StrVal
      endswith_def)







text \<open>
  Claim C10. A chunk size of \<open>0\<close> given by the caller is treated like none at
  all: the reader uses the default of its format, without an error. Any other
  value given by the caller is the chunk size used.
\<close>

theorem zero_chunk_size_falls_back_to_default:
  "get_chunk_size (r\<lparr>user_chunk_size := Some n\<rparr>) =
     (if n = 0 then get_chunk_size (r\<lparr>user_chunk_size := None\<rparr>) else n)
   \<and> get_chunk_size (r\<lparr>user_chunk_size := None\<rparr>) =
     (case compression_type r of
        COMPRESSION_NONE \<Rightarrow> 134217728
      | COMPRESSION_GZIP \<Rightarrow> 33554432
      | COMPRESSION_BZIP2 \<Rightarrow> 16777216
      | COMPRESSION_XZ \<Rightarrow> 33554432
      | COMPRESSION_LZMA \<Rightarrow> 33554432)"
  by (simp only: user_chunk_size_used default_chunk_size)

text \<open>
  Claim C8. A reader that has just been built and whose source holds no bytes
  (or no characters) yields no line and ends without exception, for any chunk size and any two
  readings of the clock (equal ones included); its statistics then show 0 lines,
  0 bytes, 0 lines per second and 0 MB per second. In no state of a reader does
  \<open>get_stats\<close> raise: the divisions by the elapsed time are made only when it is
  positive.
\<close>

theorem empty_source_has_zero_statistics:
  assumes "init src cs enc pol dbg = Inr r"
    and "source_of w r = Inr f" and "\<not> fo_closed f" and "fo_fault f = None"
    and "chunk_len (fo_data f) = 0"
  shows "(\<exists>r' s. iter w t0 t1 r = Some ([], None, r') \<and> get_stats r' = Inr s
            \<and> st_lines s = 0 \<and> st_bytes s = 0 \<and> st_lines_s s = 0 \<and> st_MB_s s = 0)
         \<and> (\<exists>s. get_stats r'' = Inr s)"
proof -
  have "decode_all (chunk_decode (encoding r) (errors r))
          (file_chunks (get_chunk_size r) (fo_data f)) = Inr []"
    by (simp add: file_chunks_empty [OF assms(5)])
  from iter_decoded [OF assms(2,3,4) this, of t0 t1]
  obtain r' where r': "iter w t0 t1 r = Some ([], None, r')"
      "line_count r' = 0" "bytes_processed r' = 0"
    by (auto simp: lines_of_Nil assms(5) init_fields(4,5) [OF assms(1)])
  from get_stats_zero [OF r'(2,3)] r'(1) get_stats_total [of r''] show ?thesis
    by blast
qed

theorem empty_source_has_zero_statistics_witness:
  "\<exists>r r' s. init (Path ''data.txt'') (Some 4) Utf8 Replace False = Inr r
      \<and> source_of (world_with ''data.txt'' (binary_stream [])) r = Inr (binary_stream [])
      \<and> \<not> fo_closed (binary_stream []) \<and> fo_fault (binary_stream []) = None
      \<and> chunk_len (fo_data (binary_stream [])) = 0
      \<and> iter (world_with ''data.txt'' (binary_stream [])) 5 5 r = Some ([], None, r')
      \<and> get_stats r' = Inr s
      \<and> st_lines s = 0 \<and> st_bytes s = 0 \<and> st_lines_s s = 0 \<and> st_MB_s s = 0"
proof -
  let ?w = "world_with ''data.txt'' (binary_stream [])"
  obtain r where i: "init (Path ''data.txt'') (Some 4) Utf8 Replace False = Inr r"
    by (simp add: init_Path)
  have "compression_type r = COMPRESSION_NONE" "file_obj r = None"
      "file_path r = StrVal ''data.txt''"
    using init_fields(6,7,8) [OF i] by (simp_all add: detect_StrVal endswith_def)
  then have s: "source_of ?w r = Inr (binary_stream [])"
    by (simp add: source_of_def world_with_def one_file_def)
  have f: "\<not> fo_closed (binary_stream [])" "fo_fault (binary_stream []) = None"
      "chunk_len (fo_data (binary_stream [])) = 0"
    by (simp_all add: binary_stream_def)
  from empty_source_has_zero_statistics [OF i s f, of 5 5 r] i s f show ?thesis
    by blast
qed

text \<open>
  Claim C7 does not hold of the code. The decoded content of the two bytes
  \<open>C3 A9\<close> is the one character U+00E9, a non-empty fragment without terminator.
  Read with chunk size 1, the last line yielded under the policy \<open>replace\<close> is
  not that fragment but two replacement characters, and under the policy \<open>strict\<close>
  no line is yielded at all and a decode error is raised.
\<close>

theorem final_fragment_lost_on_split_character:
  "bytes_decode Utf8 Replace [0xC3, 0xA9] = Inr ([] @ [0xE9])
   \<and> bytes_decode Utf8 Strict [0xC3, 0xA9] = Inr ([] @ [0xE9])
   \<and> NL \<notin> set [0xE9]
   \<and> (\<exists>r r' out. init (Stream (binary_stream [0xC3, 0xA9])) (Some 1) Utf8 Replace dbg = Inr r
          \<and> iter w t0 t1 r = Some (out, None, r')
          \<and> out = [[0xFFFD, 0xFFFD]] \<and> last out \<noteq> [0xE9])
   \<and> (\<exists>r r'. init (Stream (binary_stream [0xC3, 0xA9])) (Some 1) Utf8 Strict dbg = Inr r
          \<and> iter w t0 t1 r
              = Some ([], Some (UnicodeDecodeError ''utf-8'' 0 1 ''unexpected end of data''), r'))"
proof -
  from e_acute_split_run [of dbg w t0 t1]
  obtain r r' where "init (Stream (binary_stream [0xC3, 0xA9])) (Some 1) Utf8 Replace dbg = Inr r"
      "iter w t0 t1 r = Some ([[0xFFFD, 0xFFFD]], None, r')"
    by blast
  moreover have "last [[0xFFFD, 0xFFFD]] \<noteq> [0xE9 :: nat]"
    by simp
  ultimately have "\<exists>r r' out. init (Stream (binary_stream [0xC3, 0xA9])) (Some 1) Utf8 Replace dbg
            = Inr r
          \<and> iter w t0 t1 r = Some (out, None, r')
          \<and> out = [[0xFFFD, 0xFFFD]] \<and> last out \<noteq> [0xE9]"
    by blast
  with e_acute_split_strict_run [of dbg w t0 t1] show ?thesis
    by (simp add: e_acute_whole NL_def)
qed



text \<open>
  Claim C1 does not hold of the code. The two bytes \<open>C3 A9\<close> are the UTF-8
  encoding of U+00E9. Read with chunk size 1 they arrive in two chunks, each is
  decoded on its own, and the iteration yields one line of two replacement
  characters U+FFFD under the policy \<open>replace\<close> and raises a decode error under
  the policy \<open>strict\<close>.
\<close>

theorem split_character_is_not_decoded:
  "bytes_decode Utf8 Replace [0xC3, 0xA9] = Inr [0xE9]
   \<and> bytes_decode Utf8 Strict [0xC3, 0xA9] = Inr [0xE9]
   \<and> (\<exists>r r'. init (Stream (binary_stream [0xC3, 0xA9])) (Some 1) Utf8 Replace dbg = Inr r
          \<and> iter w t0 t1 r = Some ([[0xFFFD, 0xFFFD]], None, r'))
   \<and> (\<exists>r r'. init (Stream (binary_stream [0xC3, 0xA9])) (Some 1) Utf8 Strict dbg = Inr r
          \<and> iter w t0 t1 r
              = Some ([], Some (UnicodeDecodeError ''utf-8'' 0 1 ''unexpected end of data''), r'))"
  using e_acute_split_run [of dbg w t0 t1] e_acute_split_strict_run [of dbg w t0 t1]
  by (simp add: e_acute_whole)

text \<open>
  Claim C2 does not hold of the code. The same two bytes give the line U+00E9 when
  read with chunk size 2 and a line of two replacement characters when read with
  chunk size 1.
\<close>

theorem chunk_size_changes_the_lines:
  "(\<exists>r r'. init (Stream (binary_stream [0xC3, 0xA9])) (Some 1) Utf8 Replace dbg = Inr r
        \<and> iter w t0 t1 r = Some ([[0xFFFD, 0xFFFD]], None, r'))
   \<and> (\<exists>r r'. init (Stream (binary_stream [0xC3, 0xA9])) (Some 2) Utf8 Replace dbg = Inr r
        \<and> iter w t0 t1 r = Some ([[0xE9]], None, r'))"
  using e_acute_split_run [of dbg w t0 t1] e_acute_whole_run [of dbg w t0 t1] by simp

text \<open>
  Claim C4 does not hold of the code. The decoded content of the two bytes is the
  one character U+00E9; the lines yielded with chunk size 1, with the terminators
  put back, with or without one after the last line, are not that text.
\<close>

theorem round_trip_fails_on_split_character:
  "bytes_decode Utf8 Replace [0xC3, 0xA9] = Inr [0xE9]
   \<and> (\<exists>r r' out. init (Stream (binary_stream [0xC3, 0xA9])) (Some 1) Utf8 Replace dbg = Inr r
          \<and> iter w t0 t1 r = Some (out, None, r')
          \<and> rejoin False out \<noteq> [0xE9] \<and> rejoin True out \<noteq> [0xE9])"
proof -
  from e_acute_split_run [of dbg w t0 t1]
  obtain r r' where "init (Stream (binary_stream [0xC3, 0xA9])) (Some 1) Utf8 Replace dbg = Inr r"
      "iter w t0 t1 r = Some ([[0xFFFD, 0xFFFD]], None, r')"
    by blast
  moreover have "rejoin False [[0xFFFD, 0xFFFD]] \<noteq> [0xE9] \<and> rejoin True [[0xFFFD, 0xFFFD]] \<noteq> [0xE9]"
    by simp
  ultimately show ?thesis
    using e_acute_whole [of Replace] by blast
qed

end
